theory Spec2Isabelle
  imports Complex_Main "HOL-Library.Word" "HOL-Library.Log_Nat"
begin

section \<open>Python values used by rot2proG\_serial\_v2.py\<close>

text \<open>
  The element of a Python \<open>bytes\<close> object is an integer in \<open>range(256)\<close>: an
  8-bit word, read back as a Python integer with \<open>uint\<close>.  Python integers are
  unbounded (\<open>int\<close>).  A finite Python float is the real number it denotes, and every
  float operation of the source rounds its exact result to the nearest IEEE double
  (section on floats below).  Text sent to standard output (\<open>print\<close>) and
  \<open>time.sleep\<close> are not part of the model; failures of the serial port itself
  are not modelled either.
\<close>

type_synonym byte = "8 word"

datatype py_exception = AssertionError | IndexError | ValueError | OverflowError

text \<open>Sequencing of computations that may raise: the first exception wins.\<close>

definition and_then :: "py_exception + 'a \<Rightarrow> ('a \<Rightarrow> py_exception + 'b) \<Rightarrow> py_exception + 'b" where
  "and_then r f = (case r of Inl e \<Rightarrow> Inl e | Inr v \<Rightarrow> f v)"

text \<open>\<open>b[i]\<close> on a \<open>bytes\<close> object with a non-negative literal index.\<close>

definition getitem_bytes :: "byte list \<Rightarrow> nat \<Rightarrow> py_exception + int" where
  "getitem_bytes b i = (if i < length b then Inr (uint (b ! i)) else Inl IndexError)"

text \<open>\<open>s[-k]\<close> on a \<open>str\<close>, for a literal \<open>k > 0\<close>: the \<open>k\<close>-th character from the end.\<close>

definition getitem_str_neg :: "string \<Rightarrow> nat \<Rightarrow> py_exception + char" where
  "getitem_str_neg s k =
     (if 0 < k \<and> k \<le> length s then Inr (s ! (length s - k)) else Inl IndexError)"

text \<open>\<open>str(n)\<close> for an integer: decimal digits, most significant first, \<open>-\<close> in front
  of a negative number.\<close>

definition digit_char :: "nat \<Rightarrow> char" where
  "digit_char d = char_of (48 + d)"

fun str_nat :: "nat \<Rightarrow> string" where
  "str_nat n = (if n < 10 then [digit_char n] else str_nat (n div 10) @ [digit_char (n mod 10)])"

declare str_nat.simps [simp del]

definition str_int :: "int \<Rightarrow> string" where
  "str_int i = (if i < 0 then CHR ''-'' # str_nat (nat (- i)) else str_nat (nat i))"

text \<open>\<open>int(c)\<close> for a one-character string: the digit's value, \<open>ValueError\<close> for any
  other character that \<open>str\<close> of an integer can produce.\<close>

definition int_char :: "char \<Rightarrow> py_exception + int" where
  "int_char c =
     (let k = (of_char c :: nat)
      in if 48 \<le> k \<and> k \<le> 57 then Inr (int k - 48) else Inl ValueError)"

text \<open>\<open>int(x)\<close> for a float: truncation towards zero.\<close>

definition int_float :: "real \<Rightarrow> int" where
  "int_float x = (if 0 \<le> x then \<lfloor>x\<rfloor> else \<lceil>x\<rceil>)"

subsection \<open>Floats\<close>

text \<open>
  Python's \<open>float\<close> is the IEEE 754 binary64 format: 53 significant bits, exponents
  from -1022 to 1023, results rounded to the nearest representable value, ties to the
  one with an even significand.  \<open>round_half_even\<close> is that rule on the integers,
  \<open>binexp x\<close> is the exponent \<open>e\<close> with \<open>2^e \<le> |x| < 2^(e+1)\<close> (for \<open>x\<close>
  other than 0), and \<open>double_round x\<close> is the nearest double to the real \<open>x\<close>, with
  the spacing of the subnormal numbers below \<open>2^-1022\<close>.  A result whose rounded
  magnitude reaches \<open>2^1024\<close> is not a finite double: \<open>double_overflow\<close>.
\<close>

definition round_half_even :: "real \<Rightarrow> int" where
  "round_half_even y =
     (let f = \<lfloor>y\<rfloor>
      in if y - of_int f < 1 / 2 then f
         else if 1 / 2 < y - of_int f then f + 1
         else if even f then f else f + 1)"

definition binexp :: "real \<Rightarrow> int" where
  "binexp x =
     (if 1 \<le> \<bar>x\<bar> then bitlen \<lfloor>\<bar>x\<bar>\<rfloor> - 1 else - bitlen (\<lceil>1 / \<bar>x\<bar>\<rceil> - 1))"

definition double_round :: "real \<Rightarrow> real" where
  "double_round x =
     (if x = 0 then 0
      else let u = 2 powi (max (binexp x) (- 1022) - 52)
           in of_int (round_half_even (x / u)) * u)"

definition double_overflow :: "real \<Rightarrow> bool" where
  "double_overflow x = (2 ^ 1024 \<le> \<bar>double_round x\<bar>)"

text \<open>
  The float operations the source uses, on finite operands with a finite result:
  the conversion of an integer that meets a float in an arithmetic expression,
  \<open>+\<close>, \<open>-\<close> and \<open>*\<close> on floats, and the true division \<open>/\<close> of two integers
  (here always by the literal 10).
\<close>

definition float_of_int :: "int \<Rightarrow> real" where
  "float_of_int i = double_round (real_of_int i)"

definition float_add :: "real \<Rightarrow> real \<Rightarrow> real" where
  "float_add a b = double_round (a + b)"

definition float_sub :: "real \<Rightarrow> real \<Rightarrow> real" where
  "float_sub a b = double_round (a - b)"

definition float_mul :: "real \<Rightarrow> real \<Rightarrow> real" where
  "float_mul a b = double_round (a * b)"

definition int_truediv :: "int \<Rightarrow> int \<Rightarrow> real" where
  "int_truediv a b = double_round (real_of_int a / real_of_int b)"

text \<open>\<open>bytes(cmd)\<close> for a list of integers: \<open>ValueError\<close> unless every element is in
  \<open>range(256)\<close>.\<close>

definition bytes_py :: "int list \<Rightarrow> py_exception + byte list" where
  "bytes_py xs =
     (if list_all (\<lambda>x. 0 \<le> x \<and> x < 256) xs then Inr (map word_of_int xs) else Inl ValueError)"

section \<open>The class Rot2proG\<close>

text \<open>
  The attributes of an instance, and \<open>ser_out\<close>: every byte handed to
  \<open>self.ser.write\<close> so far, in order.
\<close>

record Rot2proG =
  pulse :: int
  debug :: bool
  dev_path :: string
  ser_out :: "byte list"

definition max_az :: real where "max_az = 360"
definition min_az :: real where "min_az = - 180"
definition max_el :: real where "max_el = 180"
definition min_el :: real where "min_el = 0"

text \<open>\<open>self.ser.write(packet); self.ser.flush()\<close>\<close>

definition ser_write :: "Rot2proG \<Rightarrow> byte list \<Rightarrow> Rot2proG" where
  "ser_write self packet = self\<lparr>ser_out := ser_out self @ packet\<rparr>"

subsection \<open>status and stop\<close>

text \<open>
  \<open>rec_packet\<close> is what \<open>self.ser.read(12)\<close> returned.  The decoding is defined
  for a byte string of any length, as the source does not look at the length; which
  byte strings the read can return is the matter of \<open>ser_read\<close> below.  The result
  is the returned list \<open>[az, el, ph]\<close> or the exception raised, together with the
  instance after the call.  In \<open>az\<close> and \<open>el\<close> the sum of the three integer
  products is an integer; it is converted when it meets the float \<open>rec_packet[4] / 10\<close>,
  and 360.0 is subtracted from the rounded sum.
\<close>

definition status :: "Rot2proG \<Rightarrow> byte list \<Rightarrow> (py_exception + real \<times> real \<times> int) \<times> Rot2proG" where
  "status self rec_packet =
     (let cmd = [0x57, 0x00, 0x00, 0x00, 0x00, 0x00, 0x00, 0x00, 0x00, 0x00, 0x00, 0x1f, 0x20]
      in case bytes_py cmd of
           Inl e \<Rightarrow> (Inl e, self)
         | Inr packet \<Rightarrow>
             (let self1 = ser_write self packet;
                  fields =
                    and_then (getitem_bytes rec_packet 1) (\<lambda>b1.
                    and_then (getitem_bytes rec_packet 2) (\<lambda>b2.
                    and_then (getitem_bytes rec_packet 3) (\<lambda>b3.
                    and_then (getitem_bytes rec_packet 4) (\<lambda>b4.
                    and_then (getitem_bytes rec_packet 6) (\<lambda>b6.
                    and_then (getitem_bytes rec_packet 7) (\<lambda>b7.
                    and_then (getitem_bytes rec_packet 8) (\<lambda>b8.
                    and_then (getitem_bytes rec_packet 9) (\<lambda>b9.
                    and_then (getitem_bytes rec_packet 5) (\<lambda>ph.
                    and_then (getitem_bytes rec_packet 10) (\<lambda>pv.
                      Inr (float_sub (float_add (float_of_int ((b1 * 100) + (b2 * 10) + b3)) (int_truediv b4 10)) 360,
                           float_sub (float_add (float_of_int ((b6 * 100) + (b7 * 10) + b8)) (int_truediv b9 10)) 360,
                           ph, pv)))))))))))
              in case fields of
                   Inl e \<Rightarrow> (Inl e, self1)
                 | Inr (az, el, ph, pv) \<Rightarrow>
                     if ph = pv then (Inr (az, el, ph), self1\<lparr>pulse := ph\<rparr>)
                     else (Inl AssertionError, self1)))"

definition stop :: "Rot2proG \<Rightarrow> byte list \<Rightarrow> (py_exception + real \<times> real \<times> int) \<times> Rot2proG" where
  "stop self rec_packet =
     (let cmd = [0x57, 0x00, 0x00, 0x00, 0x00, 0x00, 0x00, 0x00, 0x00, 0x00, 0x00, 0x0f, 0x20]
      in case bytes_py cmd of
           Inl e \<Rightarrow> (Inl e, self)
         | Inr packet \<Rightarrow>
             (let self1 = ser_write self packet;
                  fields =
                    and_then (getitem_bytes rec_packet 1) (\<lambda>b1.
                    and_then (getitem_bytes rec_packet 2) (\<lambda>b2.
                    and_then (getitem_bytes rec_packet 3) (\<lambda>b3.
                    and_then (getitem_bytes rec_packet 4) (\<lambda>b4.
                    and_then (getitem_bytes rec_packet 6) (\<lambda>b6.
                    and_then (getitem_bytes rec_packet 7) (\<lambda>b7.
                    and_then (getitem_bytes rec_packet 8) (\<lambda>b8.
                    and_then (getitem_bytes rec_packet 9) (\<lambda>b9.
                    and_then (getitem_bytes rec_packet 5) (\<lambda>ph.
                    and_then (getitem_bytes rec_packet 10) (\<lambda>pv.
                      Inr (float_sub (float_add (float_of_int ((b1 * 100) + (b2 * 10) + b3)) (int_truediv b4 10)) 360,
                           float_sub (float_add (float_of_int ((b6 * 100) + (b7 * 10) + b8)) (int_truediv b9 10)) 360,
                           ph, pv)))))))))))
              in case fields of
                   Inl e \<Rightarrow> (Inl e, self1)
                 | Inr (az, el, ph, pv) \<Rightarrow>
                     if ph = pv then (Inr (az, el, ph), self1\<lparr>pulse := ph\<rparr>)
                     else (Inl AssertionError, self1)))"

subsection \<open>The blocking read\<close>




subsection \<open>set\<close>

text \<open>The four \<open>assert\<close> statements at the head of \<open>set\<close>, in the source's order.\<close>

definition set_asserts :: "real \<Rightarrow> real \<Rightarrow> py_exception + unit" where
  "set_asserts azi eli =
     (if \<not> azi \<le> max_az then Inl AssertionError
      else if \<not> azi \<ge> min_az then Inl AssertionError
      else if \<not> eli \<le> max_el then Inl AssertionError
      else if \<not> eli \<ge> min_el then Inl AssertionError
      else Inr ())"

text \<open>
  \<open>self.pulse * (float(v) + 360)\<close>: the sum is a float addition (360 is converted
  exactly), the cached pulse is converted to a float and the product is rounded.
  \<open>set_overflow\<close> says when the expression \<open>int(self.pulse * (float(v) + 360))\<close>
  raises \<open>OverflowError\<close>: the pulse is too large to convert, or the product is
  infinite and \<open>int\<close> refuses it.  \<open>set_str\<close> is the padded decimal string
  \<open>"0" + str(int(self.pulse * (float(v) + 360)))\<close> that is built otherwise.
\<close>

definition set_overflow :: "int \<Rightarrow> real \<Rightarrow> bool" where
  "set_overflow p v =
     (double_overflow (real_of_int p) \<or> double_overflow (float_of_int p * float_add v 360))"

definition set_str :: "int \<Rightarrow> real \<Rightarrow> string" where
  "set_str p v = ''0'' @ str_int (int_float (float_mul (float_of_int p) (float_add v 360)))"

text \<open>The list \<open>cmd\<close> that \<open>set\<close> builds from the two strings and the cached pulse.\<close>

definition set_cmd :: "int \<Rightarrow> real \<Rightarrow> real \<Rightarrow> py_exception + int list" where
  "set_cmd p azi eli =
     (if set_overflow p azi then Inl OverflowError
      else if set_overflow p eli then Inl OverflowError
      else
        (let az = set_str p azi;
             el = set_str p eli
         in and_then (and_then (getitem_str_neg az 4) int_char) (\<lambda>a4.
            and_then (and_then (getitem_str_neg az 3) int_char) (\<lambda>a3.
            and_then (and_then (getitem_str_neg az 2) int_char) (\<lambda>a2.
            and_then (and_then (getitem_str_neg az 1) int_char) (\<lambda>a1.
            and_then (and_then (getitem_str_neg el 4) int_char) (\<lambda>e4.
            and_then (and_then (getitem_str_neg el 3) int_char) (\<lambda>e3.
            and_then (and_then (getitem_str_neg el 2) int_char) (\<lambda>e2.
            and_then (and_then (getitem_str_neg el 1) int_char) (\<lambda>e1.
              Inr [0x57, a4, a3, a2, a1, p, e4, e3, e2, e1, p, 0x2f, 0x20]))))))))))"

text \<open>
  \<open>set(azi, eli)\<close>, called \<open>set_rot\<close> here.  The arguments are the values of
  \<open>float(azi)\<close> and \<open>float(eli)\<close>.  An exception raised before the write leaves the
  instance as it was.
\<close>

definition set_rot :: "Rot2proG \<Rightarrow> real \<Rightarrow> real \<Rightarrow> (py_exception + unit) \<times> Rot2proG" where
  "set_rot self azi eli =
     (case set_asserts azi eli of
        Inl e \<Rightarrow> (Inl e, self)
      | Inr _ \<Rightarrow>
          (case set_cmd (pulse self) azi eli of
             Inl e \<Rightarrow> (Inl e, self)
           | Inr cmd \<Rightarrow>
               (case bytes_py cmd of
                  Inl e \<Rightarrow> (Inl e, self)
                | Inr packet \<Rightarrow> (Inr (), ser_write self packet))))"

section \<open>Example inputs\<close>

text \<open>
  An instance as the script's main block creates it (\<open>Rot2proG('COM17', debugging=True)\<close>)
  with a pulse of 4 learnt from an earlier exchange, and the same instance with the
  class default \<open>pulse = 0\<close>.  Response byte strings: a frame with the digits
  450.1 and 180.5 at pulse 2, a frame whose two pulse bytes differ, and two answers of
  a device, of thirteen bytes (the frame for 90.0/90.0 at pulse 1 and one byte more)
  and of eleven.  The
  doubles nearest to 0.3 and to 0.7, as \<open>float("0.3")\<close> and \<open>float("0.7")\<close> give them.
\<close>

definition session0 :: Rot2proG where
  "session0 = \<lparr>pulse = 4, debug = True, dev_path = ''COM17'', ser_out = []\<rparr>"

definition session_fresh :: Rot2proG where
  "session_fresh = \<lparr>pulse = 0, debug = True, dev_path = ''COM17'', ser_out = []\<rparr>"

definition frame_tenths :: "byte list" where
  "frame_tenths = [0x57, 4, 5, 0, 1, 2, 1, 8, 0, 5, 2, 0x20]"

definition frame_mismatch :: "byte list" where
  "frame_mismatch = [0x57, 4, 5, 0, 0, 1, 4, 5, 0, 0, 2, 0x20]"



definition double_0_3 :: real where
  "double_0_3 = 5404319552844595 / 18014398509481984"

definition double_0_7 :: real where
  "double_0_7 = 3152519739159347 / 4503599627370496"

section \<open>Rounding to a double\<close>

lemma round_half_even_ge:
  assumes "of_int n \<le> y"
  shows "n \<le> round_half_even y"
proof -
  have "n \<le> \<lfloor>y\<rfloor>"
    using assms by (simp add: le_floor_iff)
  then show ?thesis
    by (simp add: round_half_even_def Let_def)
qed

lemma round_half_even_le:
  assumes "y \<le> of_int n"
  shows "round_half_even y \<le> n"
proof (cases "y = of_int n")
  case True
  then show ?thesis
    by (simp add: round_half_even_def Let_def)
next
  case False
  then have "y < of_int n"
    using assms by simp
  then have "\<lfloor>y\<rfloor> < n"
    by (simp add: floor_less_iff)
  then show ?thesis
    by (simp add: round_half_even_def Let_def)
qed

lemma binexp_bounds:
  assumes "1 \<le> x"
  shows "0 \<le> binexp x" and "2 powi binexp x \<le> x" and "x < 2 powi (binexp x + 1)"
proof -
  define n where "n = \<lfloor>x\<rfloor>"
  have n1: "1 \<le> n"
    using assms by (simp add: n_def le_floor_iff)
  then have pos: "0 < n" by simp
  have be: "binexp x = bitlen n - 1"
    using assms by (simp add: binexp_def n_def)
  have bl: "1 \<le> bitlen n"
    using pos bitlen_eq_zero_iff [of n] bitlen_nonneg [of n] by linarith
  from bitlen_bounds [OF pos]
  have lo: "2 ^ nat (bitlen n - 1) \<le> n" and hi: "n < 2 ^ nat (bitlen n)"
    by simp_all
  show "0 \<le> binexp x"
    using be bl by simp
  have "(2::real) powi (bitlen n - 1) = of_int (2 ^ nat (bitlen n - 1))"
    using bl by (simp add: power_int_def)
  also have "\<dots> \<le> of_int n"
    using lo by (simp only: of_int_le_iff)
  also have "\<dots> \<le> x"
    by (simp add: n_def)
  finally show "2 powi binexp x \<le> x"
    by (simp add: be)
  have "n + 1 \<le> 2 ^ nat (bitlen n)"
    using hi by simp
  then have "of_int (n + 1) \<le> (of_int (2 ^ nat (bitlen n)) :: real)"
    by (simp only: of_int_le_iff)
  moreover have "x < of_int (n + 1)"
    by (simp add: n_def)
  moreover have "(2::real) powi (bitlen n - 1 + 1) = of_int (2 ^ nat (bitlen n))"
    using bl by (simp add: power_int_def)
  ultimately show "x < 2 powi (binexp x + 1)"
    by (simp add: be)
qed

lemma double_round_ge1:
  assumes "1 \<le> x"
  shows "double_round x =
           of_int (round_half_even (x / 2 powi (binexp x - 52))) * 2 powi (binexp x - 52)"
  using assms binexp_bounds(1) [OF assms]
  by (simp add: double_round_def Let_def max_def)

lemma grid_unit:
  assumes "e \<le> 52"
  shows "2 ^ nat (52 - e) * (2::real) powi (e - 52) = 1"
proof -
  have "(2::real) powi (52 - e) * 2 powi (e - 52) = 2 powi (52 - e + (e - 52))"
    by (rule power_int_add [symmetric]) simp
  moreover have "(2::real) powi (52 - e) = 2 ^ nat (52 - e)"
    using assms by (simp add: power_int_def)
  ultimately show ?thesis by simp
qed

lemma grid_mult:
  assumes "e \<le> 52"
  shows "of_int (M * 2 ^ nat (52 - e)) * (2::real) powi (e - 52) = of_int M"
proof -
  have "of_int (M * 2 ^ nat (52 - e)) * (2::real) powi (e - 52) =
        of_int M * (2 ^ nat (52 - e) * 2 powi (e - 52))"
    by simp
  then show ?thesis
    by (simp only: grid_unit [OF assms] mult_1_right)
qed

lemma grid_int:
  assumes "e \<le> 52"
  shows "of_int M / (2::real) powi (e - 52) = of_int (M * 2 ^ nat (52 - e))"
proof -
  have nz: "(2::real) powi (e - 52) \<noteq> 0" by simp
  have "of_int (M * 2 ^ nat (52 - e)) * (2::real) powi (e - 52) / 2 powi (e - 52) =
        of_int M / 2 powi (e - 52)"
    by (simp only: grid_mult [OF assms])
  then show ?thesis
    using nz by simp
qed

lemma below_2_53:
  assumes "M < 2 ^ 53"
  shows "of_int M < (2::real) powi 53"
proof -
  have "(of_int M :: real) < of_int (2 ^ 53)"
    using assms by (simp only: of_int_less_iff)
  then show ?thesis by simp
qed

lemma double_round_ge_int:
  assumes "1 \<le> M" and "M < 2 ^ 53" and "of_int M \<le> x"
  shows "of_int M \<le> double_round x"
proof -
  have "(1::real) \<le> of_int M"
    using assms(1) by simp
  then have x1: "1 \<le> x"
    using assms(3) by linarith
  define e where "e = binexp x"
  define u :: real where "u = 2 powi (e - 52)"
  have upos: "0 < u"
    by (simp add: u_def)
  have dr: "double_round x = of_int (round_half_even (x / u)) * u"
    unfolding u_def e_def by (rule double_round_ge1 [OF x1])
  show ?thesis
  proof (cases "e \<le> 52")
    case True
    have "of_int (M * 2 ^ nat (52 - e)) = of_int M / u"
      unfolding u_def by (rule grid_int [OF True, symmetric])
    also have "\<dots> \<le> x / u"
      using assms(3) upos by (simp add: divide_right_mono)
    finally have "M * 2 ^ nat (52 - e) \<le> round_half_even (x / u)"
      by (rule round_half_even_ge)
    then have "of_int (M * 2 ^ nat (52 - e)) * u \<le> of_int (round_half_even (x / u)) * u"
      using upos by (simp only: mult_le_cancel_right_pos of_int_le_iff)
    moreover have "of_int (M * 2 ^ nat (52 - e)) * u = of_int M"
      unfolding u_def by (rule grid_mult [OF True])
    ultimately show ?thesis
      by (simp only: dr)
  next
    case False
    then have e53: "53 \<le> e" by simp
    have "(2::real) powi e \<le> x"
      unfolding e_def by (rule binexp_bounds(2) [OF x1])
    then have "(2::real) powi e / u \<le> x / u"
      using upos by (simp add: divide_right_mono)
    moreover have pe: "(2::real) powi e = 2 powi 52 * u"
      unfolding u_def using power_int_add [of "2::real" 52 "e - 52"] by simp
    moreover have "2 powi 52 * u / u = (2::real) powi 52"
      using upos by simp
    ultimately have "(2::real) powi 52 \<le> x / u"
      by simp
    then have "of_int (2 ^ 52) \<le> x / u"
      by simp
    then have "2 ^ 52 \<le> round_half_even (x / u)"
      by (rule round_half_even_ge)
    then have "of_int (2 ^ 52) * u \<le> of_int (round_half_even (x / u)) * u"
      using upos by (simp only: mult_le_cancel_right_pos of_int_le_iff)
    moreover have "of_int (2 ^ 52) * u = (2::real) powi e"
      using pe by simp
    moreover have "(2::real) powi 53 \<le> 2 powi e"
      using e53 by (intro power_int_increasing) simp_all
    moreover note below_2_53 [OF assms(2)]
    ultimately show ?thesis
      unfolding dr by linarith
  qed
qed

lemma double_round_le_int:
  assumes "1 \<le> x" and "x \<le> of_int M" and "M < 2 ^ 53"
  shows "double_round x \<le> of_int M"
proof -
  define e where "e = binexp x"
  define u :: real where "u = 2 powi (e - 52)"
  have upos: "0 < u"
    by (simp add: u_def)
  have dr: "double_round x = of_int (round_half_even (x / u)) * u"
    unfolding u_def e_def by (rule double_round_ge1 [OF assms(1)])
  have "(2::real) powi e \<le> x"
    unfolding e_def by (rule binexp_bounds(2) [OF assms(1)])
  then have lt: "(2::real) powi e < 2 powi 53"
    using assms(2) below_2_53 [OF assms(3)] by linarith
  have le52: "e \<le> 52"
  proof (rule ccontr)
    assume "\<not> e \<le> 52"
    then have "53 \<le> e" by simp
    then have "(2::real) powi 53 \<le> 2 powi e"
      by (intro power_int_increasing) simp_all
    with lt show False by linarith
  qed
  have "x / u \<le> of_int M / u"
    using assms(2) upos by (simp add: divide_right_mono)
  also have "\<dots> = of_int (M * 2 ^ nat (52 - e))"
    unfolding u_def by (rule grid_int [OF le52])
  finally have "round_half_even (x / u) \<le> M * 2 ^ nat (52 - e)"
    by (rule round_half_even_le)
  then have "of_int (round_half_even (x / u)) * u \<le> of_int (M * 2 ^ nat (52 - e)) * u"
    using upos by (simp only: mult_le_cancel_right_pos of_int_le_iff)
  moreover have "of_int (M * 2 ^ nat (52 - e)) * u = of_int M"
    unfolding u_def by (rule grid_mult [OF le52])
  ultimately show ?thesis
    by (simp only: dr)
qed

section \<open>Decimal strings\<close>

lemma str_nat_ne: "str_nat n \<noteq> []"
  by (subst str_nat.simps) simp

lemma last_str_nat: "last (str_nat n) = digit_char (n mod 10)"
  by (subst str_nat.simps) simp

lemma str_nat_snoc: "str_nat n = butlast (str_nat n) @ [digit_char (n mod 10)]"
  using str_nat_ne [of n] last_str_nat [of n] append_butlast_last_id [of "str_nat n"] by simp

lemma str_nat_ge10: "10 \<le> n \<Longrightarrow> str_nat n = str_nat (n div 10) @ [digit_char (n mod 10)]"
  by (subst str_nat.simps) simp

lemma str_nat_lt10: "n < 10 \<Longrightarrow> str_nat n = [digit_char n]"
  by (subst str_nat.simps) simp

lemma int_char_digit: "d < 10 \<Longrightarrow> int_char (digit_char d) = Inr (int d)"
  by (simp add: int_char_def digit_char_def Let_def)

lemma digit_char_0: "digit_char 0 = CHR ''0''"
  unfolding digit_char_def by code_simp

lemma padded_shape:
  assumes "100 \<le> n"
  shows "\<exists>pre. ''0'' @ str_nat n =
           pre @ [digit_char (n div 1000 mod 10), digit_char (n div 100 mod 10),
                  digit_char (n div 10 mod 10), digit_char (n mod 10)]"
proof -
  have s1: "str_nat n = str_nat (n div 10) @ [digit_char (n mod 10)]"
    using assms by (intro str_nat_ge10) simp
  have s2: "str_nat (n div 10) = str_nat (n div 10 div 10) @ [digit_char (n div 10 mod 10)]"
    using assms by (intro str_nat_ge10) simp
  have d2: "n div 10 div 10 = n div 100"
    by (simp add: div_mult2_eq [symmetric])
  have low: "str_nat n = str_nat (n div 100) @ [digit_char (n div 10 mod 10), digit_char (n mod 10)]"
    using s1 s2 d2 by simp
  show ?thesis
  proof (cases "n < 1000")
    case True
    then have "n div 100 < 10" by simp
    then have "str_nat (n div 100) = [digit_char (n div 100)]"
      by (rule str_nat_lt10)
    moreover have "n div 1000 mod 10 = 0" "n div 100 mod 10 = n div 100"
      using True by simp_all
    ultimately have "''0'' @ str_nat n =
        [] @ [digit_char (n div 1000 mod 10), digit_char (n div 100 mod 10),
              digit_char (n div 10 mod 10), digit_char (n mod 10)]"
      using low by (simp add: digit_char_0)
    then show ?thesis by blast
  next
    case False
    then have "10 \<le> n div 100" by simp
    then have s3: "str_nat (n div 100) = str_nat (n div 100 div 10) @ [digit_char (n div 100 mod 10)]"
      by (rule str_nat_ge10)
    have d3: "n div 100 div 10 = n div 1000"
      by (simp add: div_mult2_eq [symmetric])
    have s4: "str_nat (n div 1000) = butlast (str_nat (n div 1000)) @ [digit_char (n div 1000 mod 10)]"
      by (rule str_nat_snoc)
    have "''0'' @ str_nat n =
        (''0'' @ butlast (str_nat (n div 1000))) @
          [digit_char (n div 1000 mod 10), digit_char (n div 100 mod 10),
           digit_char (n div 10 mod 10), digit_char (n mod 10)]"
      using low s3 d3 s4 by (metis append.assoc append_Cons append_Nil)
    then show ?thesis by blast
  qed
qed

lemma getitem_str_neg_tail4:
  "getitem_str_neg (pre @ [a, b, c, d]) 4 = Inr a"
  "getitem_str_neg (pre @ [a, b, c, d]) 3 = Inr b"
  "getitem_str_neg (pre @ [a, b, c, d]) 2 = Inr c"
  "getitem_str_neg (pre @ [a, b, c, d]) 1 = Inr d"
  "getitem_str_neg (pre @ [a, b, c, d]) (Suc 0) = Inr d"
  by (simp_all add: getitem_str_neg_def nth_append)

lemma product_ge_180:
  assumes "1 \<le> p" and "- 180 \<le> v"
  shows "180 \<le> float_mul (float_of_int p) (float_add v 360)"
proof -
  have fp: "1 \<le> float_of_int p"
    using double_round_ge_int [of 1 "real_of_int p"] assms(1) by (simp add: float_of_int_def)
  have fs: "180 \<le> float_add v 360"
    using double_round_ge_int [of 180 "v + 360"] assms(2) by (simp add: float_add_def)
  have "1 * 180 \<le> float_of_int p * float_add v 360"
    using fp fs by (intro mult_mono) simp_all
  then show ?thesis
    using double_round_ge_int [of 180 "float_of_int p * float_add v 360"]
    by (simp add: float_mul_def)
qed

lemma raw_ge_180:
  assumes "1 \<le> p" and "- 180 \<le> v"
  shows "180 \<le> \<lfloor>float_mul (float_of_int p) (float_add v 360)\<rfloor>"
  using product_ge_180 [OF assms] by (simp add: le_floor_iff)

lemma int_float_in_domain:
  assumes "1 \<le> p" and "- 180 \<le> v"
  shows "int_float (float_mul (float_of_int p) (float_add v 360)) =
         \<lfloor>float_mul (float_of_int p) (float_add v 360)\<rfloor>"
  using product_ge_180 [OF assms] by (simp add: int_float_def)

lemma no_overflow_byte_pulse:
  assumes "1 \<le> p" and "p < 256" and "- 180 \<le> v" and "v \<le> 360"
  shows "\<not> set_overflow p v"
proof -
  have p1: "(1::real) \<le> real_of_int p"
    using assms(1) by simp
  have fp1: "1 \<le> float_of_int p"
    using double_round_ge_int [of 1 "real_of_int p"] assms(1) by (simp add: float_of_int_def)
  have fp2: "float_of_int p \<le> 255"
    using double_round_le_int [of "real_of_int p" 255] p1 assms(2) by (simp add: float_of_int_def)
  have fs1: "180 \<le> float_add v 360"
    using double_round_ge_int [of 180 "v + 360"] assms(3) by (simp add: float_add_def)
  have fs2: "float_add v 360 \<le> 720"
    using double_round_le_int [of "v + 360" 720] assms(3,4) by (simp add: float_add_def)
  have lo: "1 \<le> float_of_int p * float_add v 360"
  proof -
    have "1 * 1 \<le> float_of_int p * float_add v 360"
      using fp1 fs1 by (intro mult_mono) simp_all
    then show ?thesis by simp
  qed
  have hi: "float_of_int p * float_add v 360 \<le> real_of_int 183600"
  proof -
    have "float_of_int p * float_add v 360 \<le> 255 * 720"
      using fp1 fp2 fs1 fs2 by (intro mult_mono) simp_all
    then show ?thesis by simp
  qed
  have pr1: "1 \<le> double_round (float_of_int p * float_add v 360)"
    using double_round_ge_int [of 1 "float_of_int p * float_add v 360"] lo by simp
  have pr2: "double_round (float_of_int p * float_add v 360) \<le> 183600"
    using double_round_le_int [OF lo hi] by simp
  have big: "(183600::real) < 2 ^ 1024"
    by simp
  have a: "\<not> double_overflow (real_of_int p)"
    using fp1 fp2 big by (simp add: double_overflow_def float_of_int_def)
  have b: "\<not> double_overflow (float_of_int p * float_add v 360)"
    using pr1 pr2 big by (simp add: double_overflow_def)
  show ?thesis
    using a b by (simp add: set_overflow_def)
qed

lemma set_str_shape:
  assumes "1 \<le> p" and "- 180 \<le> v"
  defines "n \<equiv> \<lfloor>float_mul (float_of_int p) (float_add v 360)\<rfloor>"
  shows "\<exists>pre. set_str p v =
           pre @ [digit_char (nat (n div 1000 mod 10)), digit_char (nat (n div 100 mod 10)),
                  digit_char (nat (n div 10 mod 10)), digit_char (nat (n mod 10))]"
proof -
  have n180: "180 \<le> n"
    unfolding n_def using assms(1,2) by (rule raw_ge_180)
  then have "100 \<le> nat n" by simp
  from padded_shape [OF this] obtain pre where
    pre: "''0'' @ str_nat (nat n) =
           pre @ [digit_char (nat n div 1000 mod 10), digit_char (nat n div 100 mod 10),
                  digit_char (nat n div 10 mod 10), digit_char (nat n mod 10)]"
    by blast
  have conv: "nat n div 1000 mod 10 = nat (n div 1000 mod 10)"
    "nat n div 100 mod 10 = nat (n div 100 mod 10)"
    "nat n div 10 mod 10 = nat (n div 10 mod 10)"
    "nat n mod 10 = nat (n mod 10)"
    using n180 by (simp_all add: nat_div_distrib nat_mod_distrib)
  have "set_str p v = ''0'' @ str_nat (nat n)"
    using n180 int_float_in_domain [OF assms(1,2)]
    by (simp add: set_str_def str_int_def n_def)
  with pre conv show ?thesis by metis
qed

lemma horner4:
  fixes A B C D d0 d1 d2 :: int
  assumes "A = 10 * B + d0" and "B = 10 * C + d1" and "C = 10 * D + d2"
  shows "D * 1000 + d2 * 100 + d1 * 10 + d0 = A"
  using assms by simp

lemma div10_div10: "(n::int) div 10 div 10 = n div 100"
  using zdiv_zmult2_eq [of 10 n 10] by simp

lemma div100_div10: "(n::int) div 100 div 10 = n div 1000"
  using zdiv_zmult2_eq [of 10 n 100] by simp

lemma mod_a: "(n::int) mod 10000 = 10 * (n div 10 mod 1000) + n mod 10"
  using zmod_zmult2_eq [of 1000 n 10] by simp

lemma mod_b: "(n::int) div 10 mod 1000 = 10 * (n div 100 mod 100) + n div 10 mod 10"
  using zmod_zmult2_eq [of 100 "n div 10" 10] by (simp add: div10_div10)

lemma mod_c: "(n::int) div 100 mod 100 = 10 * (n div 1000 mod 10) + n div 100 mod 10"
  using zmod_zmult2_eq [of 10 "n div 100" 10] by (simp add: div100_div10)

lemma digit4_value:
  fixes n :: int
  shows "n div 1000 mod 10 * 1000 + n div 100 mod 10 * 100 + n div 10 mod 10 * 10 + n mod 10 = n mod 10000"
  by (rule horner4 [OF mod_a mod_b mod_c])

lemma digit_range: "0 \<le> (n::int) div k mod 10 \<and> n div k mod 10 \<le> 9"
  by simp

lemma extract_digits:
  assumes "1 \<le> p" and "- 180 \<le> v"
  defines "n \<equiv> \<lfloor>float_mul (float_of_int p) (float_add v 360)\<rfloor>"
  shows "and_then (getitem_str_neg (set_str p v) 4) int_char = Inr (n div 1000 mod 10)"
    and "and_then (getitem_str_neg (set_str p v) 3) int_char = Inr (n div 100 mod 10)"
    and "and_then (getitem_str_neg (set_str p v) 2) int_char = Inr (n div 10 mod 10)"
    and "and_then (getitem_str_neg (set_str p v) 1) int_char = Inr (n mod 10)"
proof -
  from set_str_shape [OF assms(1,2)] obtain pre where
    pre: "set_str p v =
           pre @ [digit_char (nat (n div 1000 mod 10)), digit_char (nat (n div 100 mod 10)),
                  digit_char (nat (n div 10 mod 10)), digit_char (nat (n mod 10))]"
    unfolding n_def by blast
  have lt: "nat (n div 1000 mod 10) < 10" "nat (n div 100 mod 10) < 10"
    "nat (n div 10 mod 10) < 10" "nat (n mod 10) < 10"
    by simp_all
  show "and_then (getitem_str_neg (set_str p v) 4) int_char = Inr (n div 1000 mod 10)"
    using int_char_digit [OF lt(1)] by (simp add: pre getitem_str_neg_tail4 and_then_def)
  show "and_then (getitem_str_neg (set_str p v) 3) int_char = Inr (n div 100 mod 10)"
    using int_char_digit [OF lt(2)] by (simp add: pre getitem_str_neg_tail4 and_then_def)
  show "and_then (getitem_str_neg (set_str p v) 2) int_char = Inr (n div 10 mod 10)"
    using int_char_digit [OF lt(3)] by (simp add: pre getitem_str_neg_tail4 and_then_def)
  show "and_then (getitem_str_neg (set_str p v) 1) int_char = Inr (n mod 10)"
    using int_char_digit [OF lt(4)] by (simp add: pre getitem_str_neg_tail4 and_then_def)
qed

lemma set_cmd_in_domain:
  assumes "1 \<le> p" and "- 180 \<le> azi" and "- 180 \<le> eli"
    and "\<not> set_overflow p azi" and "\<not> set_overflow p eli"
  shows "set_cmd p azi eli =
           Inr [0x57,
                \<lfloor>float_mul (float_of_int p) (float_add azi 360)\<rfloor> div 1000 mod 10,
                \<lfloor>float_mul (float_of_int p) (float_add azi 360)\<rfloor> div 100 mod 10,
                \<lfloor>float_mul (float_of_int p) (float_add azi 360)\<rfloor> div 10 mod 10,
                \<lfloor>float_mul (float_of_int p) (float_add azi 360)\<rfloor> mod 10,
                p,
                \<lfloor>float_mul (float_of_int p) (float_add eli 360)\<rfloor> div 1000 mod 10,
                \<lfloor>float_mul (float_of_int p) (float_add eli 360)\<rfloor> div 100 mod 10,
                \<lfloor>float_mul (float_of_int p) (float_add eli 360)\<rfloor> div 10 mod 10,
                \<lfloor>float_mul (float_of_int p) (float_add eli 360)\<rfloor> mod 10,
                p, 0x2f, 0x20]"
proof -
  note a = extract_digits [OF assms(1,2)]
  note e = extract_digits [OF assms(1,3)]
  show ?thesis
    unfolding set_cmd_def Let_def
    apply (simp only: assms(4,5) if_False)
    apply (subst a(1), subst a(2), subst a(3), subst a(4))
    apply (subst e(1), subst e(2), subst e(3), subst e(4))
    apply (simp add: and_then_def)
    done
qed

lemma set_asserts_ok: "set_asserts azi eli = Inr () \<longleftrightarrow> - 180 \<le> azi \<and> azi \<le> 360 \<and> 0 \<le> eli \<and> eli \<le> 180"
  by (auto simp: set_asserts_def max_az_def min_az_def max_el_def min_el_def)

lemma set_asserts_fail: "set_asserts azi eli = Inl AssertionError \<longleftrightarrow> \<not> (- 180 \<le> azi \<and> azi \<le> 360 \<and> 0 \<le> eli \<and> eli \<le> 180)"
  by (auto simp: set_asserts_def max_az_def min_az_def max_el_def min_el_def)

section \<open>The three operations, case by case\<close>

lemma bytes_py_status: "bytes_py [0x57, 0x00, 0x00, 0x00, 0x00, 0x00, 0x00, 0x00, 0x00, 0x00, 0x00, 0x1f, 0x20]
   = Inr [0x57, 0, 0, 0, 0, 0, 0, 0, 0, 0, 0, 0x1f, 0x20]"
  by (simp add: bytes_py_def)

lemma bytes_py_stop: "bytes_py [0x57, 0x00, 0x00, 0x00, 0x00, 0x00, 0x00, 0x00, 0x00, 0x00, 0x00, 0x0f, 0x20]
   = Inr [0x57, 0, 0, 0, 0, 0, 0, 0, 0, 0, 0, 0x0f, 0x20]"
  by (simp add: bytes_py_def)

lemma uint_byte_eq: "uint (a :: byte) = uint b \<longleftrightarrow> a = b"
  by (simp add: word_uint_eq_iff)

lemma status_long:
  assumes "10 < length rec_packet"
  shows "status self rec_packet =
     (if rec_packet ! 5 = rec_packet ! 10
      then (Inr (float_sub (float_add (float_of_int (uint (rec_packet ! 1) * 100 + uint (rec_packet ! 2) * 10
                                                  + uint (rec_packet ! 3)))
                                      (int_truediv (uint (rec_packet ! 4)) 10)) 360,
                 float_sub (float_add (float_of_int (uint (rec_packet ! 6) * 100 + uint (rec_packet ! 7) * 10
                                                  + uint (rec_packet ! 8)))
                                      (int_truediv (uint (rec_packet ! 9)) 10)) 360,
                 uint (rec_packet ! 5)),
            self\<lparr>ser_out := ser_out self @ [0x57, 0, 0, 0, 0, 0, 0, 0, 0, 0, 0, 0x1f, 0x20],
                 pulse := uint (rec_packet ! 5)\<rparr>)
      else (Inl AssertionError,
            self\<lparr>ser_out := ser_out self @ [0x57, 0, 0, 0, 0, 0, 0, 0, 0, 0, 0, 0x1f, 0x20]\<rparr>))"
  using assms
  by (simp add: status_def bytes_py_status ser_write_def getitem_bytes_def and_then_def Let_def uint_byte_eq)

lemma status_short:
  assumes "length rec_packet \<le> 10"
  shows "status self rec_packet =
     (Inl IndexError, self\<lparr>ser_out := ser_out self @ [0x57, 0, 0, 0, 0, 0, 0, 0, 0, 0, 0, 0x1f, 0x20]\<rparr>)"
  using assms
  by (simp add: status_def bytes_py_status ser_write_def getitem_bytes_def and_then_def Let_def uint_byte_eq)

lemma stop_long:
  assumes "10 < length rec_packet"
  shows "stop self rec_packet =
     (if rec_packet ! 5 = rec_packet ! 10
      then (Inr (float_sub (float_add (float_of_int (uint (rec_packet ! 1) * 100 + uint (rec_packet ! 2) * 10
                                                  + uint (rec_packet ! 3)))
                                      (int_truediv (uint (rec_packet ! 4)) 10)) 360,
                 float_sub (float_add (float_of_int (uint (rec_packet ! 6) * 100 + uint (rec_packet ! 7) * 10
                                                  + uint (rec_packet ! 8)))
                                      (int_truediv (uint (rec_packet ! 9)) 10)) 360,
                 uint (rec_packet ! 5)),
            self\<lparr>ser_out := ser_out self @ [0x57, 0, 0, 0, 0, 0, 0, 0, 0, 0, 0, 0x0f, 0x20],
                 pulse := uint (rec_packet ! 5)\<rparr>)
      else (Inl AssertionError,
            self\<lparr>ser_out := ser_out self @ [0x57, 0, 0, 0, 0, 0, 0, 0, 0, 0, 0, 0x0f, 0x20]\<rparr>))"
  using assms
  by (simp add: stop_def bytes_py_stop ser_write_def getitem_bytes_def and_then_def Let_def uint_byte_eq)

lemma stop_short:
  assumes "length rec_packet \<le> 10"
  shows "stop self rec_packet =
     (Inl IndexError, self\<lparr>ser_out := ser_out self @ [0x57, 0, 0, 0, 0, 0, 0, 0, 0, 0, 0, 0x0f, 0x20]\<rparr>)"
  using assms
  by (simp add: stop_def bytes_py_stop ser_write_def getitem_bytes_def and_then_def Let_def uint_byte_eq)

lemma set_rot_rejects:
  assumes "\<not> (- 180 \<le> azi \<and> azi \<le> 360 \<and> 0 \<le> eli \<and> eli \<le> 180)"
  shows "set_rot self azi eli = (Inl AssertionError, self)"
  using assms set_asserts_fail [of azi eli] by (simp add: set_rot_def)

lemma double_round_0: "double_round 0 = 0"
  by (simp add: double_round_def)

lemma set_overflow_pulse0: "\<not> set_overflow 0 v"
  by (simp add: set_overflow_def double_overflow_def float_of_int_def double_round_0)

lemma set_str_pulse0: "set_str 0 v = ''00''"
  by (simp add: set_str_def float_mul_def float_of_int_def double_round_0 int_float_def
        str_int_def str_nat_lt10 digit_char_0)

lemma set_cmd_pulse0: "set_cmd 0 azi eli = Inl IndexError"
  by (simp add: set_cmd_def set_overflow_pulse0 set_str_pulse0 getitem_str_neg_def and_then_def)

text \<open>
  Inside the domain and with a pulse between 1 and 255, \<open>set\<close> as a whole
  succeeds and writes the bytes of the list that \<open>set_cmd\<close> builds.
\<close>

lemma bytes_py_set:
  fixes na ne p :: int
  assumes "0 \<le> p" and "p < 256"
  shows "bytes_py [0x57, na div 1000 mod 10, na div 100 mod 10, na div 10 mod 10, na mod 10, p,
                   ne div 1000 mod 10, ne div 100 mod 10, ne div 10 mod 10, ne mod 10, p, 0x2f, 0x20] =
         Inr (map word_of_int
                  [0x57, na div 1000 mod 10, na div 100 mod 10, na div 10 mod 10, na mod 10, p,
                   ne div 1000 mod 10, ne div 100 mod 10, ne div 10 mod 10, ne mod 10, p, 0x2f, 0x20])"
proof -
  have small: "\<And>d::int. d mod 10 < 256"
  proof -
    fix d :: int
    have "d mod 10 < 10" by simp
    then show "d mod 10 < 256" by linarith
  qed
  show ?thesis
    unfolding bytes_py_def using assms by (simp add: small)
qed

lemma set_rot_in_domain:
  assumes "1 \<le> pulse self" and "pulse self < 256"
    and "- 180 \<le> azi" and "azi \<le> 360" and "0 \<le> eli" and "eli \<le> 180"
  shows "set_rot self azi eli =
           (Inr (),
            ser_write self (map word_of_int
              [0x57,
               \<lfloor>float_mul (float_of_int (pulse self)) (float_add azi 360)\<rfloor> div 1000 mod 10,
               \<lfloor>float_mul (float_of_int (pulse self)) (float_add azi 360)\<rfloor> div 100 mod 10,
               \<lfloor>float_mul (float_of_int (pulse self)) (float_add azi 360)\<rfloor> div 10 mod 10,
               \<lfloor>float_mul (float_of_int (pulse self)) (float_add azi 360)\<rfloor> mod 10,
               pulse self,
               \<lfloor>float_mul (float_of_int (pulse self)) (float_add eli 360)\<rfloor> div 1000 mod 10,
               \<lfloor>float_mul (float_of_int (pulse self)) (float_add eli 360)\<rfloor> div 100 mod 10,
               \<lfloor>float_mul (float_of_int (pulse self)) (float_add eli 360)\<rfloor> div 10 mod 10,
               \<lfloor>float_mul (float_of_int (pulse self)) (float_add eli 360)\<rfloor> mod 10,
               pulse self, 0x2f, 0x20]))"
proof -
  have ok: "set_asserts azi eli = Inr ()"
    using assms(3-6) by (simp add: set_asserts_ok)
  have el: "- 180 \<le> eli"
    using assms(5) by simp
  have p0: "0 \<le> pulse self"
    using assms(1) by simp
  have el360: "eli \<le> 360"
    using assms(6) by simp
  have na: "\<not> set_overflow (pulse self) azi"
    by (rule no_overflow_byte_pulse [OF assms(1) assms(2) assms(3) assms(4)])
  have ne: "\<not> set_overflow (pulse self) eli"
    by (rule no_overflow_byte_pulse [OF assms(1) assms(2) el el360])
  show ?thesis
    unfolding set_rot_def
    by (simp only: ok set_cmd_in_domain [OF assms(1) assms(3) el na ne]
          bytes_py_set [OF p0 assms(2)] sum.case)
qed

lemma and_then_not_assert:
  assumes "r \<noteq> Inl AssertionError" and "\<And>v. f v \<noteq> Inl AssertionError"
  shows "and_then r f \<noteq> Inl AssertionError"
  using assms by (cases r) (simp_all add: and_then_def)

lemma getitem_str_neg_not_assert: "getitem_str_neg s k \<noteq> Inl AssertionError"
  by (simp add: getitem_str_neg_def)

lemma int_char_not_assert: "int_char c \<noteq> Inl AssertionError"
  by (simp add: int_char_def Let_def)

lemma digit_not_assert: "and_then (getitem_str_neg s k) int_char \<noteq> Inl AssertionError"
  by (rule and_then_not_assert) (simp_all add: getitem_str_neg_not_assert int_char_not_assert)

lemma set_cmd_not_assert: "set_cmd p azi eli \<noteq> Inl AssertionError"
proof -
  have digits: "and_then (and_then (getitem_str_neg az 4) int_char) (\<lambda>a4.
         and_then (and_then (getitem_str_neg az 3) int_char) (\<lambda>a3.
         and_then (and_then (getitem_str_neg az 2) int_char) (\<lambda>a2.
         and_then (and_then (getitem_str_neg az 1) int_char) (\<lambda>a1.
         and_then (and_then (getitem_str_neg el 4) int_char) (\<lambda>e4.
         and_then (and_then (getitem_str_neg el 3) int_char) (\<lambda>e3.
         and_then (and_then (getitem_str_neg el 2) int_char) (\<lambda>e2.
         and_then (and_then (getitem_str_neg el 1) int_char) (\<lambda>e1.
           Inr [0x57, a4, a3, a2, a1, p, e4, e3, e2, e1, p, 0x2f, 0x20]))))))))
       \<noteq> Inl AssertionError" for az el
    by (intro and_then_not_assert digit_not_assert) simp
  show ?thesis
    unfolding set_cmd_def Let_def using digits by simp
qed

lemma bytes_py_not_assert: "bytes_py xs \<noteq> Inl AssertionError"
  by (simp add: bytes_py_def)

lemma set_rot_passed:
  assumes "set_asserts azi eli = Inr ()"
  shows "fst (set_rot self azi eli) \<noteq> Inl AssertionError"
  using set_cmd_not_assert [of "pulse self" azi eli] bytes_py_not_assert
  by (auto simp: set_rot_def assms split: sum.splits)

subsection \<open>Values of the float expressions at the example inputs\<close>


lemma decode_450_1:
  "float_sub (float_add (float_of_int 450) (int_truediv 1 10)) 360 = 792527981300941 / 8796093022208"
  by code_simp

lemma decode_180_5:
  "float_sub (float_add (float_of_int 180) (int_truediv 5 10)) 360 = - 359 / 2"
  by code_simp

lemma product_1_90: "float_mul (float_of_int 1) (float_add 90 360) = 450"
  by code_simp

lemma product_10_03: "float_mul (float_of_int 10) (float_add double_0_3 360) = 3603"
  by code_simp

lemma product_10_07: "float_mul (float_of_int 10) (float_add double_0_7 360) = 3607"
  by code_simp

text \<open>
  The rounding matters: with the double nearest to 0.3 and pulse 10 the product in
  exact arithmetic lies just below 3603, the product in double precision is 3603.
\<close>

lemma exact_product_differs:
  "\<lfloor>real_of_int 10 * (double_0_3 + 360)\<rfloor> = 3602 \<and>
   \<lfloor>float_mul (float_of_int 10) (float_add double_0_3 360)\<rfloor> = 3603"
  by (simp add: product_10_03) (simp add: double_0_3_def)

section \<open>Properties of the specification\<close>

subsection \<open>Decoding a response\<close>

text \<open>
  C1, counterexample.  The claim speaks of every 12-byte response.  For the 12-byte
  response \<open>frame_mismatch\<close>, whose PH byte is 1 and whose PV byte is 2, \<open>status\<close>
  raises at \<open>assert(ph == pv)\<close>: no triple is returned and the cached pulse keeps
  its old value 4 instead of becoming the PH byte.
\<close>

theorem status_every_frame_counterexample:
  "length frame_mismatch = 12 \<and>
   status session0 frame_mismatch =
     (Inl AssertionError,
      \<lparr>pulse = 4, debug = True, dev_path = ''COM17'',
       ser_out = [0x57, 0, 0, 0, 0, 0, 0, 0, 0, 0, 0, 0x1f, 0x20]\<rparr>)"
  by (simp add: status_long frame_mismatch_def session0_def)

text \<open>
  C1, as amended.  For every 12-byte response whose PH byte (offset 5) equals its PV
  byte (offset 10), \<open>status\<close> and \<open>stop\<close> decode each axis as
  hundreds * 100 + tens * 10 + units + tenths / 10 - 360.0, evaluated as Python does
  in double precision (elevation with the same offset as azimuth), set the cached
  pulse to the PH byte and return azimuth, elevation and pulse in that order.  The
  two differ only in the command they wrote.
\<close>

theorem status_stop_decode:
  assumes "length rec_packet = 12" and "rec_packet ! 5 = rec_packet ! 10"
  shows "status self rec_packet =
           (Inr (float_sub (float_add (float_of_int (uint (rec_packet ! 1) * 100 + uint (rec_packet ! 2) * 10
                                                  + uint (rec_packet ! 3)))
                                      (int_truediv (uint (rec_packet ! 4)) 10)) 360,
                 float_sub (float_add (float_of_int (uint (rec_packet ! 6) * 100 + uint (rec_packet ! 7) * 10
                                                  + uint (rec_packet ! 8)))
                                      (int_truediv (uint (rec_packet ! 9)) 10)) 360,
                 uint (rec_packet ! 5)),
            self\<lparr>ser_out := ser_out self @ [0x57, 0, 0, 0, 0, 0, 0, 0, 0, 0, 0, 0x1f, 0x20],
                 pulse := uint (rec_packet ! 5)\<rparr>)
       \<and> stop self rec_packet =
           (Inr (float_sub (float_add (float_of_int (uint (rec_packet ! 1) * 100 + uint (rec_packet ! 2) * 10
                                                  + uint (rec_packet ! 3)))
                                      (int_truediv (uint (rec_packet ! 4)) 10)) 360,
                 float_sub (float_add (float_of_int (uint (rec_packet ! 6) * 100 + uint (rec_packet ! 7) * 10
                                                  + uint (rec_packet ! 8)))
                                      (int_truediv (uint (rec_packet ! 9)) 10)) 360,
                 uint (rec_packet ! 5)),
            self\<lparr>ser_out := ser_out self @ [0x57, 0, 0, 0, 0, 0, 0, 0, 0, 0, 0, 0x0f, 0x20],
                 pulse := uint (rec_packet ! 5)\<rparr>)"
proof -
  have long: "10 < length rec_packet"
    using assms(1) by simp
  show ?thesis
    using assms(2) by (simp add: status_long [OF long] stop_long [OF long])
qed

theorem status_stop_decode_witness:
  "length frame_tenths = 12 \<and> frame_tenths ! 5 = frame_tenths ! 10 \<and>
   status session0 frame_tenths =
     (Inr (792527981300941 / 8796093022208, - 359 / 2, 2),
      \<lparr>pulse = 2, debug = True, dev_path = ''COM17'',
       ser_out = [0x57, 0, 0, 0, 0, 0, 0, 0, 0, 0, 0, 0x1f, 0x20]\<rparr>) \<and>
   stop session0 frame_tenths =
     (Inr (792527981300941 / 8796093022208, - 359 / 2, 2),
      \<lparr>pulse = 2, debug = True, dev_path = ''COM17'',
       ser_out = [0x57, 0, 0, 0, 0, 0, 0, 0, 0, 0, 0, 0x0f, 0x20]\<rparr>)"
  using status_stop_decode [of frame_tenths session0]
  by (simp add: frame_tenths_def session0_def decode_450_1 decode_180_5)

text \<open>
  C3.  For every response that has a PH byte (offset 5) and a PV byte (offset 10)
  and in which the two differ, \<open>status\<close> and \<open>stop\<close> raise the exception of
  \<open>assert(ph == pv)\<close>, which is the consistency error of the specification, and
  so return no value.
\<close>

theorem mismatch_raises:
  assumes "10 < length rec_packet" and "rec_packet ! 5 \<noteq> rec_packet ! 10"
  shows "fst (status self rec_packet) = Inl AssertionError
       \<and> fst (stop self rec_packet) = Inl AssertionError"
  using assms(2) by (simp add: status_long [OF assms(1)] stop_long [OF assms(1)])

theorem mismatch_raises_witness:
  "10 < length frame_mismatch \<and> frame_mismatch ! 5 \<noteq> frame_mismatch ! 10 \<and>
   fst (status session0 frame_mismatch) = Inl AssertionError \<and>
   fst (stop session0 frame_mismatch) = Inl AssertionError"
  using mismatch_raises [of frame_mismatch session0]
  by (simp add: frame_mismatch_def)

text \<open>
  C9.  When \<open>status\<close> or \<open>stop\<close> fails because PH and PV differ, the assertion
  is evaluated before \<open>self.pulse\<close> is assigned: the instance afterwards is the one
  before the call with only the command frame added to the bytes written, so the
  cached pulse, the debug flag and the device path are what they were.
\<close>

theorem mismatch_keeps_pulse:
  assumes "10 < length rec_packet" and "rec_packet ! 5 \<noteq> rec_packet ! 10"
  shows "snd (status self rec_packet) =
           self\<lparr>ser_out := ser_out self @ [0x57, 0, 0, 0, 0, 0, 0, 0, 0, 0, 0, 0x1f, 0x20]\<rparr>
       \<and> snd (stop self rec_packet) =
           self\<lparr>ser_out := ser_out self @ [0x57, 0, 0, 0, 0, 0, 0, 0, 0, 0, 0, 0x0f, 0x20]\<rparr>
       \<and> pulse (snd (status self rec_packet)) = pulse self
       \<and> pulse (snd (stop self rec_packet)) = pulse self"
  using assms(2) by (simp add: status_long [OF assms(1)] stop_long [OF assms(1)])

theorem mismatch_keeps_pulse_witness:
  "10 < length frame_mismatch \<and> frame_mismatch ! 5 \<noteq> frame_mismatch ! 10 \<and>
   pulse (snd (status session0 frame_mismatch)) = 4 \<and>
   pulse (snd (stop session0 frame_mismatch)) = 4"
  using mismatch_keeps_pulse [of frame_mismatch session0]
  by (simp add: frame_mismatch_def session0_def)




text \<open>
  C8.  Whatever the instance holds and whatever the device answers, \<open>stop\<close> writes
  the same thirteen bytes: start marker 0x57, four zero azimuth digits, a zero pulse
  byte, four zero elevation digits, a zero pulse byte, selector 0x0f, end marker 0x20.
\<close>

theorem stop_frame_fixed:
  "ser_out (snd (stop self rec_packet)) =
     ser_out self @ [0x57, 0, 0, 0, 0, 0, 0, 0, 0, 0, 0, 0x0f, 0x20]"
proof (cases "10 < length rec_packet")
  case True
  then show ?thesis
    by (simp add: stop_long [OF True])
next
  case False
  then have short: "length rec_packet \<le> 10" by simp
  then show ?thesis
    by (simp add: stop_short [OF short])
qed

subsection \<open>Building the SET command\<close>

text \<open>
  C2.  For every pulse p >= 1, azimuth in [-180, 360] and elevation in [0, 180], the
  four characters that \<open>set\<close> takes from the end of each padded string are decimal
  digits (0 to 9) whose value, read most significant first, is
  floor(p * (v + 360)) mod 10000, the product being the one Python computes in double
  precision.  Unless the product overflows, the command list is 0x57, the four azimuth
  digits, p, the four elevation digits, p, 0x2f, 0x20; when p fits a byte, these are
  the bytes that \<open>set\<close> writes.
\<close>

theorem set_frame_digits:
  assumes "1 \<le> p"
    and "- 180 \<le> azi" and "azi \<le> 360" and "0 \<le> eli" and "eli \<le> 180"
  shows "\<exists>a4 a3 a2 a1 e4 e3 e2 e1.
           map (\<lambda>k. and_then (getitem_str_neg (set_str p azi) k) int_char) [4, 3, 2, 1] =
             [Inr a4, Inr a3, Inr a2, Inr a1]
         \<and> map (\<lambda>k. and_then (getitem_str_neg (set_str p eli) k) int_char) [4, 3, 2, 1] =
             [Inr e4, Inr e3, Inr e2, Inr e1]
         \<and> list_all (\<lambda>d. 0 \<le> d \<and> d \<le> 9) [a4, a3, a2, a1, e4, e3, e2, e1]
         \<and> a4 * 1000 + a3 * 100 + a2 * 10 + a1 =
             \<lfloor>float_mul (float_of_int p) (float_add azi 360)\<rfloor> mod 10000
         \<and> e4 * 1000 + e3 * 100 + e2 * 10 + e1 =
             \<lfloor>float_mul (float_of_int p) (float_add eli 360)\<rfloor> mod 10000
         \<and> (\<not> set_overflow p azi \<and> \<not> set_overflow p eli \<longrightarrow>
              set_cmd p azi eli = Inr [0x57, a4, a3, a2, a1, p, e4, e3, e2, e1, p, 0x2f, 0x20])
         \<and> (p < 256 \<longrightarrow>
              set_rot (self\<lparr>pulse := p\<rparr>) azi eli =
                (Inr (),
                 ser_write (self\<lparr>pulse := p\<rparr>)
                   (map word_of_int [0x57, a4, a3, a2, a1, p, e4, e3, e2, e1, p, 0x2f, 0x20])))"
proof -
  have el: "- 180 \<le> eli"
    using assms(4) by simp
  define na where "na = \<lfloor>float_mul (float_of_int p) (float_add azi 360)\<rfloor>"
  define ne where "ne = \<lfloor>float_mul (float_of_int p) (float_add eli 360)\<rfloor>"
  have mz: "map (\<lambda>k. and_then (getitem_str_neg (set_str p azi) k) int_char) [4, 3, 2, 1] =
      [Inr (na div 1000 mod 10), Inr (na div 100 mod 10), Inr (na div 10 mod 10), Inr (na mod 10)]"
    using extract_digits [OF assms(1,2)] by (simp add: na_def)
  have me: "map (\<lambda>k. and_then (getitem_str_neg (set_str p eli) k) int_char) [4, 3, 2, 1] =
      [Inr (ne div 1000 mod 10), Inr (ne div 100 mod 10), Inr (ne div 10 mod 10), Inr (ne mod 10)]"
    using extract_digits [OF assms(1) el] by (simp add: ne_def)
  have rng: "list_all (\<lambda>d. 0 \<le> d \<and> d \<le> 9)
      [na div 1000 mod 10, na div 100 mod 10, na div 10 mod 10, na mod 10,
       ne div 1000 mod 10, ne div 100 mod 10, ne div 10 mod 10, ne mod 10]"
    using digit_range [of na 1] digit_range [of ne 1] by (simp add: digit_range)
  have va: "na div 1000 mod 10 * 1000 + na div 100 mod 10 * 100 + na div 10 mod 10 * 10 + na mod 10
      = na mod 10000"
    by (rule digit4_value)
  have ve: "ne div 1000 mod 10 * 1000 + ne div 100 mod 10 * 100 + ne div 10 mod 10 * 10 + ne mod 10
      = ne mod 10000"
    by (rule digit4_value)
  have cmd: "\<not> set_overflow p azi \<and> \<not> set_overflow p eli \<longrightarrow>
      set_cmd p azi eli =
      Inr [0x57, na div 1000 mod 10, na div 100 mod 10, na div 10 mod 10, na mod 10, p,
           ne div 1000 mod 10, ne div 100 mod 10, ne div 10 mod 10, ne mod 10, p, 0x2f, 0x20]"
  proof
    assume "\<not> set_overflow p azi \<and> \<not> set_overflow p eli"
    then have oa: "\<not> set_overflow p azi" and oe: "\<not> set_overflow p eli"
      by simp_all
    show "set_cmd p azi eli =
      Inr [0x57, na div 1000 mod 10, na div 100 mod 10, na div 10 mod 10, na mod 10, p,
           ne div 1000 mod 10, ne div 100 mod 10, ne div 10 mod 10, ne mod 10, p, 0x2f, 0x20]"
      unfolding na_def ne_def by (rule set_cmd_in_domain [OF assms(1) assms(2) el oa oe])
  qed
  have wr: "p < 256 \<longrightarrow>
      set_rot (self\<lparr>pulse := p\<rparr>) azi eli =
        (Inr (),
         ser_write (self\<lparr>pulse := p\<rparr>)
           (map word_of_int
              [0x57, na div 1000 mod 10, na div 100 mod 10, na div 10 mod 10, na mod 10, p,
               ne div 1000 mod 10, ne div 100 mod 10, ne div 10 mod 10, ne mod 10, p, 0x2f, 0x20]))"
  proof
    assume "p < 256"
    then show "set_rot (self\<lparr>pulse := p\<rparr>) azi eli =
        (Inr (),
         ser_write (self\<lparr>pulse := p\<rparr>)
           (map word_of_int
              [0x57, na div 1000 mod 10, na div 100 mod 10, na div 10 mod 10, na mod 10, p,
               ne div 1000 mod 10, ne div 100 mod 10, ne div 10 mod 10, ne mod 10, p, 0x2f, 0x20]))"
      using set_rot_in_domain [of "self\<lparr>pulse := p\<rparr>" azi eli] assms
      unfolding na_def ne_def by simp
  qed
  show ?thesis
    using mz me rng va ve cmd wr unfolding na_def ne_def
    by (intro exI conjI) assumption+
qed

theorem set_frame_digits_witness:
  "(1::int) \<le> 10 \<and> - 180 \<le> double_0_3 \<and> double_0_3 \<le> 360 \<and> 0 \<le> double_0_7 \<and> double_0_7 \<le> 180 \<and>
   (\<exists>a4 a3 a2 a1 e4 e3 e2 e1.
           set_rot (session0\<lparr>pulse := 10\<rparr>) double_0_3 double_0_7 =
             (Inr (),
              ser_write (session0\<lparr>pulse := 10\<rparr>)
                (map word_of_int [0x57, a4, a3, a2, a1, 10, e4, e3, e2, e1, 10, 0x2f, 0x20]))
         \<and> list_all (\<lambda>d. 0 \<le> d \<and> d \<le> 9) [a4, a3, a2, a1, e4, e3, e2, e1]
         \<and> a4 * 1000 + a3 * 100 + a2 * 10 + a1 = 3603
         \<and> e4 * 1000 + e3 * 100 + e2 * 10 + e1 = 3607)"
proof -
  have p: "(1::int) \<le> 10"
    by simp
  have dom: "- 180 \<le> double_0_3" "double_0_3 \<le> 360" "0 \<le> double_0_7" "double_0_7 \<le> 180"
    by (simp_all add: double_0_3_def double_0_7_def)
  from set_frame_digits [OF p dom, of session0]
  obtain a4 a3 a2 a1 e4 e3 e2 e1 where
    rng: "list_all (\<lambda>d. 0 \<le> d \<and> d \<le> 9) [a4, a3, a2, a1, e4, e3, e2, e1]"
    and va: "a4 * 1000 + a3 * 100 + a2 * 10 + a1 =
             \<lfloor>float_mul (float_of_int 10) (float_add double_0_3 360)\<rfloor> mod 10000"
    and ve: "e4 * 1000 + e3 * 100 + e2 * 10 + e1 =
             \<lfloor>float_mul (float_of_int 10) (float_add double_0_7 360)\<rfloor> mod 10000"
    and wr: "(10::int) < 256 \<longrightarrow>
              set_rot (session0\<lparr>pulse := 10\<rparr>) double_0_3 double_0_7 =
                (Inr (),
                 ser_write (session0\<lparr>pulse := 10\<rparr>)
                   (map word_of_int [0x57, a4, a3, a2, a1, 10, e4, e3, e2, e1, 10, 0x2f, 0x20]))"
    by (elim exE conjE)
  have va': "a4 * 1000 + a3 * 100 + a2 * 10 + a1 = 3603"
    using va by (simp add: product_10_03)
  have ve': "e4 * 1000 + e3 * 100 + e2 * 10 + e1 = 3607"
    using ve by (simp add: product_10_07)
  from wr have wr': "set_rot (session0\<lparr>pulse := 10\<rparr>) double_0_3 double_0_7 =
                (Inr (),
                 ser_write (session0\<lparr>pulse := 10\<rparr>)
                   (map word_of_int [0x57, a4, a3, a2, a1, 10, e4, e3, e2, e1, 10, 0x2f, 0x20]))"
    by simp
  show ?thesis
    using p dom wr' rng va' ve' by (intro conjI exI) assumption+
qed



text \<open>
  C7.  With a cached pulse of 1, \<open>set(90.0, 90.0)\<close> returns normally and writes
  exactly the thirteen bytes 0x57, 0, 4, 5, 0, 1, 0, 4, 5, 0, 1, 0x2f, 0x20.
\<close>

theorem set_90_90_frame:
  "set_rot (self\<lparr>pulse := 1\<rparr>) 90 90 =
     (Inr (),
      self\<lparr>pulse := 1,
           ser_out := ser_out self @ [0x57, 0, 4, 5, 0, 1, 0, 4, 5, 0, 1, 0x2f, 0x20]\<rparr>)"
  using set_rot_in_domain [of "self\<lparr>pulse := 1\<rparr>" 90 90]
  by (simp add: ser_write_def product_1_90)

text \<open>
  C4.  If the azimuth is outside [-180, 360] or the elevation is outside [0, 180],
  \<open>set\<close> raises the exception of its range assertions, which is the range error of
  the specification, with nothing written and the instance unchanged.  At the four
  corners of the domain the assertions pass, and \<open>set\<close> does not raise that
  exception.
\<close>

theorem set_out_of_range:
  "(\<not> (- 180 \<le> azi \<and> azi \<le> 360 \<and> 0 \<le> eli \<and> eli \<le> 180) \<longrightarrow>
        set_rot self azi eli = (Inl AssertionError, self)
      \<and> ser_out (snd (set_rot self azi eli)) = ser_out self)
 \<and> list_all (\<lambda>(a, e). set_asserts a e = Inr () \<and> fst (set_rot self a e) \<noteq> Inl AssertionError)
      [(- 180, 0), (- 180, 180), (360, 0), (360, 180)]"
proof -
  have corner: "set_asserts a e = Inr () \<and> fst (set_rot self a e) \<noteq> Inl AssertionError"
    if "- 180 \<le> a \<and> a \<le> 360 \<and> 0 \<le> e \<and> e \<le> 180" for a e
  proof -
    have ok: "set_asserts a e = Inr ()"
      using that by (simp add: set_asserts_ok)
    then show ?thesis
      using set_rot_passed [OF ok, of self] by simp
  qed
  have out: "\<not> (- 180 \<le> azi \<and> azi \<le> 360 \<and> 0 \<le> eli \<and> eli \<le> 180) \<longrightarrow>
        set_rot self azi eli = (Inl AssertionError, self)
      \<and> ser_out (snd (set_rot self azi eli)) = ser_out self"
    using set_rot_rejects [of azi eli self] by simp
  have corners: "list_all (\<lambda>(a, e). set_asserts a e = Inr () \<and> fst (set_rot self a e) \<noteq> Inl AssertionError)
      [(- 180, 0), (- 180, 180), (360, 0), (360, 180)]"
    using corner [of "- 180" 0] corner [of "- 180" 180] corner [of 360 0] corner [of 360 180]
    by simp
  from out corners show ?thesis by (rule conjI)
qed

theorem set_out_of_range_witness:
  "\<not> (- 180 \<le> (400::real) \<and> (400::real) \<le> 360 \<and> (0::real) \<le> 0 \<and> (0::real) \<le> 180) \<and>
   set_rot session0 400 0 = (Inl AssertionError, session0) \<and>
   ser_out (snd (set_rot session0 400 0)) = [] \<and>
   set_asserts (- 180) 0 = Inr () \<and> set_asserts 360 180 = Inr ()"
  using set_out_of_range [of 400 0 session0]
  by (simp add: session0_def)

text \<open>
  C6, counterexample.  The claim asks for a dedicated check of an uninitialised pulse
  that fails before anything is multiplied.  With the class default \<open>pulse = 0\<close>,
  \<open>set(90.0, 90.0)\<close> passes the range assertions, multiplies by zero, builds the
  padded string \<open>"00"\<close> and only then fails, with the \<open>IndexError\<close> of the
  expression \<open>az[-4]\<close>.
\<close>

theorem set_pulse0_counterexample:
  "pulse session_fresh = 0 \<and> set_asserts 90 90 = Inr () \<and> set_str 0 90 = ''00'' \<and>
   getitem_str_neg ''00'' 4 = Inl IndexError \<and>
   set_rot session_fresh 90 90 = (Inl IndexError, session_fresh)"
proof -
  have ok: "set_asserts 90 90 = Inr ()"
    by (simp add: set_asserts_ok)
  have raised: "set_rot session_fresh 90 90 = (Inl IndexError, session_fresh)"
    by (simp add: session_fresh_def set_rot_def ok set_cmd_pulse0)
  show ?thesis
    by (simp add: ok raised set_str_pulse0 getitem_str_neg_def) (simp add: session_fresh_def)
qed

text \<open>
  C6, as amended.  For every azimuth in [-180, 360] and elevation in [0, 180], if the
  cached pulse is 0 then \<open>set\<close> computes the padded string \<open>"00"\<close> for each axis
  and raises \<open>IndexError\<close> when it takes the fourth character from the end; nothing
  has been written by then and the instance is unchanged.
\<close>

theorem set_pulse0_index_error:
  assumes "pulse self = 0"
    and "- 180 \<le> azi" and "azi \<le> 360" and "0 \<le> eli" and "eli \<le> 180"
  shows "set_str (pulse self) azi = ''00'' \<and> set_str (pulse self) eli = ''00''
       \<and> set_rot self azi eli = (Inl IndexError, self)
       \<and> ser_out (snd (set_rot self azi eli)) = ser_out self"
proof -
  have ok: "set_asserts azi eli = Inr ()"
    using assms(2-5) by (simp add: set_asserts_ok)
  show ?thesis
    by (simp add: assms(1) set_str_pulse0 set_rot_def ok set_cmd_pulse0)
qed

theorem set_pulse0_index_error_witness:
  "pulse session_fresh = 0 \<and> (- 180 :: real) \<le> 0 \<and> (0 :: real) \<le> 360 \<and> (0 :: real) \<le> 180 \<and>
   set_rot session_fresh 0 180 = (Inl IndexError, session_fresh) \<and>
   ser_out (snd (set_rot session_fresh 0 180)) = []"
  using set_pulse0_index_error [of session_fresh 0 180]
  by (simp add: session_fresh_def)

end
